theory Spec2Isabelle
  imports Main "HOL-Library.Word" "HOL-Library.Sublist" "HOL-Library.Multiset" "HOL-Library.AList"
begin

unbundle bit_operations_syntax

section \<open>JavaScript values\<close>

text \<open>
  KinX is a Node.js script. The values it decodes come out of \<^verbatim>\<open>response.json()\<close>, so
  they are JSON values; \<^verbatim>\<open>undefined\<close> is added because property reads produce it.
  An object is the list of its own enumerable properties in enumeration order.
  A string is a list of code units; every operation the script applies to strings
  (comparison with ASCII literals, \<^verbatim>\<open>startsWith\<close>, \<^verbatim>\<open>slice\<close>, \<^verbatim>\<open>includes\<close>, concatenation)
  works unit by unit. A number is the bit pattern of its IEEE-754 binary64 value; the
  script does no arithmetic on decoded numbers.
\<close>

type_synonym byte = "8 word"
type_synonym double = "64 word"

datatype jsval =
    JUndefined
  | JNull
  | JBool bool
  | JNum double
  | JStr string
  | JArr "jsval list"
  | JObj "(string \<times> jsval) list"

text \<open>A thrown exception: the error's name and its message.\<close>

datatype js_error = JsError string string

definition TypeError :: "string \<Rightarrow> js_error" where
  "TypeError msg = JsError ''TypeError'' msg"

definition Error :: "string \<Rightarrow> js_error" where
  "Error msg = JsError ''Error'' msg"


fun error_message :: "js_error \<Rightarrow> string" where
  "error_message (JsError name msg) = msg"

definition is_nullish :: "jsval \<Rightarrow> bool" where
  "is_nullish v = (v = JNull \<or> v = JUndefined)"

fun typeof :: "jsval \<Rightarrow> string" where
  "typeof JUndefined = ''undefined''"
| "typeof JNull = ''object''"
| "typeof (JBool b) = ''boolean''"
| "typeof (JNum d) = ''number''"
| "typeof (JStr s) = ''string''"
| "typeof (JArr xs) = ''object''"
| "typeof (JObj kvs) = ''object''"

definition is_zero :: "double \<Rightarrow> bool" where
  "is_zero d = (d AND 0x7FFFFFFFFFFFFFFF = 0)"

definition is_nan :: "double \<Rightarrow> bool" where
  "is_nan d = (0x7FF0000000000000 < (d AND 0x7FFFFFFFFFFFFFFF))"

text \<open>ToBoolean, as used by \<^verbatim>\<open>!!v\<close>, \<^verbatim>\<open>a || b\<close> and \<^verbatim>\<open>filter(Boolean)\<close>.\<close>

fun truthy :: "jsval \<Rightarrow> bool" where
  "truthy JUndefined = False"
| "truthy JNull = False"
| "truthy (JBool b) = b"
| "truthy (JNum d) = (\<not> is_zero d \<and> \<not> is_nan d)"
| "truthy (JStr s) = (s \<noteq> [])"
| "truthy (JArr xs) = True"
| "truthy (JObj kvs) = True"

definition js_or :: "jsval \<Rightarrow> jsval \<Rightarrow> jsval" where
  "js_or a b = (if truthy a then a else b)"

fun show_nat :: "nat \<Rightarrow> string" where
  "show_nat n =
     (if n < 10 then [char_of (48 + n)]
      else show_nat (n div 10) @ [char_of (48 + n mod 10)])"

text \<open>
  \<^verbatim>\<open>Object.entries(v)\<close> for a value that is neither \<^verbatim>\<open>null\<close> nor \<^verbatim>\<open>undefined\<close>: the own
  properties of an object, the indexed elements of an array, the code units of a
  string, nothing for a number or a boolean.
\<close>

fun object_entries :: "jsval \<Rightarrow> (string \<times> jsval) list" where
  "object_entries (JObj kvs) = kvs"
| "object_entries (JArr xs) = zip (map show_nat [0..<length xs]) xs"
| "object_entries (JStr s) = zip (map show_nat [0..<length s]) (map (\<lambda>c. JStr [c]) s)"
| "object_entries v = []"

text \<open>
  Reading a named property that no built-in prototype defines (\<^verbatim>\<open>fields\<close>): only a
  plain object can have it, as an own property.
\<close>

fun own_prop :: "jsval \<Rightarrow> string \<Rightarrow> jsval" where
  "own_prop (JObj kvs) k = (case map_of kvs k of None \<Rightarrow> JUndefined | Some v \<Rightarrow> v)"
| "own_prop v k = JUndefined"

text \<open>
  The assignment \<^verbatim>\<open>out[k] = v\<close> on a plain object: an existing property keeps its place,
  a new one is added at the end. The key \<^verbatim>\<open>__proto__\<close> reaches the inherited accessor and
  creates no own property.
\<close>

definition obj_set :: "(string \<times> jsval) list \<Rightarrow> string \<Rightarrow> jsval \<Rightarrow> (string \<times> jsval) list" where
  "obj_set out k v = (if k = ''__proto__'' then out else AList.update k v out)"

section \<open>The runtime library\<close>

text \<open>
  The functions of Node.js that the script calls and does not define. \<^verbatim>\<open>Number\<close> is
  total on JSON values. \<^verbatim>\<open>Buffer.from(s, 'base64')\<close> skips what it cannot decode and
  \<^verbatim>\<open>buf.toString('utf8')\<close> replaces what it cannot decode; neither throws. An MD5
  digest has 128 bits. The AES-256 block function maps a 32-byte key and a 16-byte
  block to a 16-byte block. \<open>date_getTime v\<close> is \<^verbatim>\<open>new Date(v).getTime()\<close>, the milliseconds
  since the epoch, with \<open>None\<close> for \<^verbatim>\<open>NaN\<close> (an invalid date).
\<close>

record runtime =
  to_number :: "jsval \<Rightarrow> double"
  base64_decode :: "string \<Rightarrow> byte list"
  utf8_encode :: "string \<Rightarrow> byte list"
  utf8_decode :: "byte list \<Rightarrow> string"
  md5 :: "byte list \<Rightarrow> 128 word"
  aes256_decrypt_block :: "byte list \<Rightarrow> byte list \<Rightarrow> byte list"
  date_getTime :: "jsval \<Rightarrow> int option"

definition ascii :: "string \<Rightarrow> byte list" where
  "ascii s = map of_char s"

text \<open>The 16 bytes of a digest, most significant first.\<close>

definition digest_bytes :: "128 word \<Rightarrow> byte list" where
  "digest_bytes w = map (\<lambda>i. ucast (drop_bit (8 * (15 - i)) w)) [0..<16]"

subsection \<open>The \<^verbatim>\<open>aes-256-cbc\<close> decipher with automatic padding\<close>

definition xor_bytes :: "byte list \<Rightarrow> byte list \<Rightarrow> byte list" where
  "xor_bytes a b = map2 (XOR) a b"

fun cbc_decrypt :: "(byte list \<Rightarrow> byte list) \<Rightarrow> byte list \<Rightarrow> byte list \<Rightarrow> byte list" where
  "cbc_decrypt D prev cs =
     (if length cs < 16 then []
      else xor_bytes (D (take 16 cs)) prev @ cbc_decrypt D (take 16 cs) (drop 16 cs))"

text \<open>
  PKCS#7: the last byte \<open>n\<close> of the plaintext is between 1 and 16 and the last \<open>n\<close> bytes
  all equal \<open>n\<close>; they are removed.
\<close>

definition pkcs7_unpad :: "byte list \<Rightarrow> byte list option" where
  "pkcs7_unpad p =
     (if p = [] then None
      else let n = unat (last p) in
        if n = 0 \<or> 16 < n \<or> length p < n then None
        else if list_all (\<lambda>b. b = last p) (drop (length p - n) p)
             then Some (take (length p - n) p)
             else None)"

text \<open>
  \<^verbatim>\<open>createDecipheriv('aes-256-cbc', key, iv)\<close>, \<^verbatim>\<open>setAutoPadding(true)\<close>, then
  \<^verbatim>\<open>update(data)\<close> and \<^verbatim>\<open>final()\<close> concatenated. It throws for a key or IV of the wrong
  length, for data that is empty or not a whole number of blocks, and for bad padding.
\<close>

definition decipher_aes_256_cbc ::
  "runtime \<Rightarrow> byte list \<Rightarrow> byte list \<Rightarrow> byte list \<Rightarrow> js_error + byte list" where
  "decipher_aes_256_cbc rt key iv data =
     (if length key \<noteq> 32 then Inl (JsError ''RangeError'' ''Invalid key length'')
      else if length iv \<noteq> 16 then Inl (TypeError ''Invalid initialization vector'')
      else if data = [] \<or> length data mod 16 \<noteq> 0
           then Inl (Error ''wrong final block length'')
      else case pkcs7_unpad (cbc_decrypt (aes256_decrypt_block rt key) iv data) of
             None \<Rightarrow> Inl (Error ''bad decrypt'')
           | Some plain \<Rightarrow> Inr plain)"

section \<open>Decryption and data decoding\<close>

function evp_loop ::
  "runtime \<Rightarrow> byte list \<Rightarrow> byte list \<Rightarrow> byte list \<Rightarrow> byte list \<Rightarrow> byte list" where
  "evp_loop rt passwordBuffer salt derived digest =
     (if length derived < 48 then
        (let digest' = digest_bytes (md5 rt (digest @ passwordBuffer @ salt))
         in evp_loop rt passwordBuffer salt (derived @ digest') digest')
      else derived)"
  by pat_completeness auto
termination
  by (relation "measure (\<lambda>(rt, p, s, derived, d). 48 - length derived)")
     (auto simp: digest_bytes_def)

declare evp_loop.simps [simp del]

definition evpBytesToKey :: "runtime \<Rightarrow> byte list \<Rightarrow> byte list \<Rightarrow> byte list \<times> byte list" where
  "evpBytesToKey rt passwordBuffer salt =
     (let derived = evp_loop rt passwordBuffer salt [] []
      in (take 32 derived, take 16 (drop 32 derived)))"

text \<open>\<^verbatim>\<open>null\<close> is \<open>None\<close>; the \<^verbatim>\<open>try\<close> block turns every exception into \<^verbatim>\<open>null\<close>.\<close>

definition decryptEncString :: "runtime \<Rightarrow> string \<Rightarrow> string \<Rightarrow> string option" where
  "decryptEncString rt opensslBase64 uidPassword =
     (let raw = base64_decode rt opensslBase64 in
      if length raw < 16 \<or> utf8_decode rt (take 8 raw) \<noteq> ''Salted__'' then None
      else
        let salt = take 8 (drop 8 raw);
            data = drop 16 raw;
            (key, iv) = evpBytesToKey rt (utf8_encode rt uidPassword) salt
        in case decipher_aes_256_cbc rt key iv data of
             Inl e \<Rightarrow> None
           | Inr decrypted \<Rightarrow> Some (utf8_decode rt decrypted))"

definition starts_with :: "string \<Rightarrow> string \<Rightarrow> bool" where
  "starts_with s p = (take (length p) s = p)"

text \<open>
  The nesting depth of a value bounds the recursion of the decoder: it only ever
  descends into parts of its argument.
\<close>

fun depth :: "jsval \<Rightarrow> nat"
  and max_depth :: "jsval list \<Rightarrow> nat"
  and max_depth_kv :: "(string \<times> jsval) list \<Rightarrow> nat"
where
  "depth (JArr xs) = Suc (max_depth xs)"
| "depth (JObj kvs) = Suc (max_depth_kv kvs)"
| "depth v = 0"
| "max_depth [] = 0"
| "max_depth (x # xs) = max (depth x) (max_depth xs)"
| "max_depth_kv [] = 0"
| "max_depth_kv ((k, v) # kvs) = max (depth v) (max_depth_kv kvs)"

text \<open>
  \<^verbatim>\<open>(value.values || [])\<close> when it is an array, for a \<open>value\<close> that is neither \<^verbatim>\<open>null\<close> nor
  \<^verbatim>\<open>undefined\<close>. For an array, \<^verbatim>\<open>.values\<close> is the built-in iterator method.
\<close>

fun values_array :: "jsval \<Rightarrow> jsval list option" where
  "values_array (JArr xs) = None"
| "values_array v =
     (case js_or (own_prop v ''values'') (JArr []) of JArr xs \<Rightarrow> Some xs | _ \<Rightarrow> None)"

text \<open>\<^verbatim>\<open>Object.entries(value.fields || {})\<close>, for such a \<open>value\<close>.\<close>

definition fields_entries :: "jsval \<Rightarrow> (string \<times> jsval) list" where
  "fields_entries v = object_entries (js_or (own_prop v ''fields'') (JObj []))"

lemma depth_le_max_depth: "x \<in> set xs \<Longrightarrow> depth x \<le> max_depth xs"
  by (induction xs) auto

lemma max_depth_kv_snd: "max_depth_kv kvs = max_depth (map snd kvs)"
  by (induction kvs) auto

lemma max_depth_le_iff: "max_depth xs \<le> n \<longleftrightarrow> (\<forall>x\<in>set xs. depth x \<le> n)"
  by (induction xs) auto

lemma map_of_depth: "map_of kvs k = Some v \<Longrightarrow> depth v \<le> max_depth_kv kvs"
  by (induction kvs) (auto split: if_splits)

lemma own_prop_depth: "own_prop v k = x \<Longrightarrow> x \<noteq> JUndefined \<Longrightarrow> Suc (depth x) \<le> depth v"
  by (cases v) (auto dest: map_of_depth split: option.splits)

lemma entries_depth: "max_depth (map snd (object_entries x)) \<le> depth x"
proof (cases x)
  case (JStr s)
  have "max_depth (map (\<lambda>c. JStr [c]) s) = 0" by (induction s) auto
  then show ?thesis using JStr by simp
next
  case (JArr xs)
  have "map snd (zip (map show_nat [0..<length xs]) xs) = xs"
    by simp
  then show ?thesis using JArr by simp
next
  case (JObj kvs)
  then show ?thesis by (simp add: max_depth_kv_snd)
qed simp_all

lemma fields_entries_depth: "max_depth (map snd (fields_entries v)) \<le> depth v"
proof (cases "truthy (own_prop v ''fields'')")
  case True
  then have "own_prop v ''fields'' \<noteq> JUndefined" by auto
  then have "Suc (depth (own_prop v ''fields'')) \<le> depth v" by (simp add: own_prop_depth)
  moreover have "max_depth (map snd (object_entries (own_prop v ''fields''))) \<le> depth (own_prop v ''fields'')"
    by (rule entries_depth)
  ultimately show ?thesis using True by (simp add: fields_entries_def js_or_def)
next
  case False
  then show ?thesis by (simp add: fields_entries_def js_or_def)
qed

lemma values_array_depth: "values_array v = Some xs \<Longrightarrow> max_depth xs \<le> depth v"
proof (cases "truthy (own_prop v ''values'')")
  case True
  assume a: "values_array v = Some xs"
  from True have "own_prop v ''values'' \<noteq> JUndefined" by auto
  then have "Suc (depth (own_prop v ''values'')) \<le> depth v" by (simp add: own_prop_depth)
  moreover from a True have "own_prop v ''values'' = JArr xs"
    by (cases v) (auto simp: js_or_def split: jsval.splits)
  ultimately show ?thesis by simp
next
  case False
  assume a: "values_array v = Some xs"
  with False have "xs = []" by (cases v) (auto simp: js_or_def split: jsval.splits)
  then show ?thesis by simp
qed

text \<open>
  \<^verbatim>\<open>decodeValue\<close>. An array has index keys and an empty object has no key, so neither
  matches a \<^verbatim>\<open>case\<close> label. Reading \<^verbatim>\<open>.fields\<close> or \<^verbatim>\<open>.values\<close> of \<^verbatim>\<open>null\<close> or \<^verbatim>\<open>undefined\<close>
  throws; \<^verbatim>\<open>.values\<close> of an array is the built-in iterator method, and calling \<^verbatim>\<open>.map\<close> on
  anything but an array throws. \<open>decode_entries\<close> is the \<^verbatim>\<open>for\<close> loop over
  \<^verbatim>\<open>Object.entries\<close>, \<open>decode_elems\<close> the callback of \<^verbatim>\<open>map\<close>.
\<close>

function decodeValue :: "runtime \<Rightarrow> jsval \<Rightarrow> string \<Rightarrow> js_error + jsval"
  and decode_entries ::
    "runtime \<Rightarrow> (string \<times> jsval) list \<Rightarrow> string \<Rightarrow> (string \<times> jsval) list \<Rightarrow> js_error + jsval"
  and decode_elems :: "runtime \<Rightarrow> jsval list \<Rightarrow> string \<Rightarrow> js_error + jsval list"
where
  "decodeValue rt firestoreValue uid =
     (if is_nullish firestoreValue \<or> typeof firestoreValue \<noteq> ''object'' then Inr firestoreValue
      else case firestoreValue of
        JObj ((key, value) # rest) \<Rightarrow>
          if key = ''stringValue'' then
            (case value of
               JStr s \<Rightarrow>
                 if starts_with s ''!enc:'' then
                   (case decryptEncString rt (drop 5 s) uid of
                      None \<Rightarrow> Inr value
                    | Some text \<Rightarrow> Inr (JStr text))
                 else Inr value
             | _ \<Rightarrow> Inr value)
          else if key = ''integerValue'' then Inr (JNum (to_number rt value))
          else if key = ''doubleValue'' then Inr (JNum (to_number rt value))
          else if key = ''booleanValue'' then Inr (JBool (truthy value))
          else if key = ''timestampValue'' then Inr value
          else if key = ''nullValue'' then Inr JNull
          else if key = ''mapValue'' then
            (if is_nullish value
             then Inl (TypeError ''Cannot read properties of null or undefined (reading fields)'')
             else decode_entries rt (fields_entries value) uid [])
          else if key = ''arrayValue'' then
            (if is_nullish value
             then Inl (TypeError ''Cannot read properties of null or undefined (reading values)'')
             else case values_array value of
                None \<Rightarrow> Inl (TypeError ''(value.values || []).map is not a function'')
              | Some xs \<Rightarrow> map_sum id JArr (decode_elems rt xs uid))
          else Inr firestoreValue
      | _ \<Rightarrow> Inr firestoreValue)"
| "decode_entries rt [] uid out = Inr (JObj out)"
| "decode_entries rt ((k, v) # es) uid out =
     (case decodeValue rt v uid of
        Inl e \<Rightarrow> Inl e
      | Inr d \<Rightarrow> decode_entries rt es uid (obj_set out k d))"
| "decode_elems rt [] uid = Inr []"
| "decode_elems rt (v # vs) uid =
     (case decodeValue rt v uid of
        Inl e \<Rightarrow> Inl e
      | Inr d \<Rightarrow> map_sum id ((#) d) (decode_elems rt vs uid))"
  by pat_completeness auto
termination
  apply (relation "inv_image (less_than <*lex*> less_than)
     (\<lambda>a. case a of
        Inl (rt, v, uid) \<Rightarrow> (2 * depth v + 1, 0)
      | Inr (Inl (rt, es, uid, out)) \<Rightarrow> (2 * max_depth (map snd es) + 2, length es)
      | Inr (Inr (rt, vs, uid)) \<Rightarrow> (2 * max_depth vs + 2, length vs))")
  subgoal by (intro wf_inv_image wf_lex_prod wf_less_than)
  subgoal for rt firestoreValue uid kvs p rest key "value"
    using fields_entries_depth [of "value"] by auto
  subgoal for rt firestoreValue uid kvs p rest key "value" xs
    using values_array_depth [of "value" xs] by auto
  subgoal by (simp add: max_def)
  subgoal by (simp add: max_def)
  subgoal by (simp add: max_def)
  subgoal by (simp add: max_def)
  done

declare decodeValue.simps [simp del]

definition decodeFields :: "runtime \<Rightarrow> jsval \<Rightarrow> string \<Rightarrow> js_error + jsval" where
  "decodeFields rt fields' uid = decode_entries rt (object_entries (js_or fields' (JObj []))) uid []"

subsection \<open>The wire values of the data store\<close>

text \<open>
  The typed values the store sends, one constructor per kind: \<^verbatim>\<open>nullValue\<close>,
  \<^verbatim>\<open>booleanValue\<close>, \<^verbatim>\<open>integerValue\<close> (a 64-bit integer, sent as a decimal string),
  \<^verbatim>\<open>doubleValue\<close>, \<^verbatim>\<open>timestampValue\<close>, \<^verbatim>\<open>stringValue\<close>, \<^verbatim>\<open>mapValue\<close>, \<^verbatim>\<open>arrayValue\<close>, and
  any other kind (bytes, references, geographic points) with its payload. \<open>wire_json\<close>
  is the JSON object that \<^verbatim>\<open>decodeValue\<close> receives for each. The store leaves \<^verbatim>\<open>fields\<close> out
  of an empty map and \<^verbatim>\<open>values\<close> out of an empty array, and sends the doubles that JSON
  cannot write as strings.
\<close>

datatype wire =
    WNull
  | WBoolean bool
  | WInteger "64 word"
  | WDouble double
  | WTimestamp string
  | WString string
  | WMap "(string \<times> wire) list"
  | WArray "wire list"
  | WOpaque string jsval

definition show_int :: "int \<Rightarrow> string" where
  "show_int i = (if i < 0 then ''-'' @ show_nat (nat (- i)) else show_nat (nat i))"

definition double_json :: "double \<Rightarrow> jsval" where
  "double_json d =
     (if is_nan d then JStr ''NaN''
      else if d = 0x7FF0000000000000 then JStr ''Infinity''
      else if d = 0xFFF0000000000000 then JStr ''-Infinity''
      else JNum d)"

fun wire_json :: "wire \<Rightarrow> jsval" where
  "wire_json WNull = JObj [(''nullValue'', JNull)]"
| "wire_json (WBoolean b) = JObj [(''booleanValue'', JBool b)]"
| "wire_json (WInteger i) = JObj [(''integerValue'', JStr (show_int (sint i)))]"
| "wire_json (WDouble d) = JObj [(''doubleValue'', double_json d)]"
| "wire_json (WTimestamp t) = JObj [(''timestampValue'', JStr t)]"
| "wire_json (WString s) = JObj [(''stringValue'', JStr s)]"
| "wire_json (WMap kvs) =
     JObj [(''mapValue'',
            if kvs = [] then JObj []
            else JObj [(''fields'', JObj (map (\<lambda>(k, w). (k, wire_json w)) kvs))])]"
| "wire_json (WArray ws) =
     JObj [(''arrayValue'',
            if ws = [] then JObj [] else JObj [(''values'', JArr (map wire_json ws))])]"
| "wire_json (WOpaque kind payload) = JObj [(kind, payload)]"

definition known_kinds :: "string list" where
  "known_kinds =
     [''stringValue'', ''integerValue'', ''doubleValue'', ''booleanValue'',
      ''timestampValue'', ''nullValue'', ''mapValue'', ''arrayValue'']"

text \<open>
  A wire value is representable when each of its opaque kinds is none of the eight
  interpreted ones (\<open>opaque_ok\<close>). It is well formed (\<open>wire_ok\<close>) when moreover the field
  names of its maps are unique and not \<^verbatim>\<open>__proto__\<close> (the store reserves the names of the
  form \<^verbatim>\<open>__.*__\<close>).
\<close>

fun opaque_ok :: "wire \<Rightarrow> bool" where
  "opaque_ok (WMap kvs) = list_all (\<lambda>(k, w). opaque_ok w) kvs"
| "opaque_ok (WArray ws) = list_all opaque_ok ws"
| "opaque_ok (WOpaque kind payload) = (kind \<notin> set known_kinds)"
| "opaque_ok w = True"

fun wire_ok :: "wire \<Rightarrow> bool" where
  "wire_ok (WMap kvs) =
     (distinct (map fst kvs) \<and> ''__proto__'' \<notin> set (map fst kvs)
      \<and> list_all (\<lambda>(k, w). wire_ok w) kvs)"
| "wire_ok (WArray ws) = list_all wire_ok ws"
| "wire_ok (WOpaque kind payload) = (kind \<notin> set known_kinds)"
| "wire_ok w = True"

text \<open>
  What the specification says the decoder yields for each kind: scalars pass through,
  integers and doubles become numbers, a string with the encryption prefix becomes its
  cleartext or stays as it is when decryption fails, maps and arrays are decoded entry
  by entry, an opaque value is returned unchanged.
\<close>

fun decoded :: "runtime \<Rightarrow> string \<Rightarrow> wire \<Rightarrow> jsval" where
  "decoded rt uid WNull = JNull"
| "decoded rt uid (WBoolean b) = JBool b"
| "decoded rt uid (WInteger i) = JNum (to_number rt (JStr (show_int (sint i))))"
| "decoded rt uid (WDouble d) = JNum (to_number rt (double_json d))"
| "decoded rt uid (WTimestamp t) = JStr t"
| "decoded rt uid (WString s) =
     (if starts_with s ''!enc:'' then
        (case decryptEncString rt (drop 5 s) uid of
           Some cleartext \<Rightarrow> JStr cleartext
         | None \<Rightarrow> JStr s)
      else JStr s)"
| "decoded rt uid (WMap kvs) = JObj (map (\<lambda>(k, w). (k, decoded rt uid w)) kvs)"
| "decoded rt uid (WArray ws) = JArr (map (decoded rt uid) ws)"
| "decoded rt uid (WOpaque kind payload) = JObj [(kind, payload)]"

subsection \<open>The reference decryption algorithm\<close>

text \<open>
  The algorithm as the specification words it. The digests are
  \<open>digest\<^sub>i = MD5 (digest\<^sub>i\<^sub>-\<^sub>1 || secret || salt)\<close> with \<open>digest\<^sub>0\<close> empty; \<open>kdf_stream n\<close> is the
  concatenation of the first \<open>n\<close> of them.
\<close>

fun kdf_digest :: "runtime \<Rightarrow> byte list \<Rightarrow> byte list \<Rightarrow> nat \<Rightarrow> byte list" where
  "kdf_digest rt secret salt 0 = []"
| "kdf_digest rt secret salt (Suc i) =
     digest_bytes (md5 rt (kdf_digest rt secret salt i @ secret @ salt))"

definition kdf_stream :: "runtime \<Rightarrow> byte list \<Rightarrow> byte list \<Rightarrow> nat \<Rightarrow> byte list" where
  "kdf_stream rt secret salt n = concat (map (kdf_digest rt secret salt) [1..<Suc n])"

definition reference_decrypt :: "runtime \<Rightarrow> string \<Rightarrow> string \<Rightarrow> string option" where
  "reference_decrypt rt b64 secret =
     (let raw = base64_decode rt b64 in
      if length raw < 16 \<or> take 8 raw \<noteq> ascii ''Salted__'' then None
      else
        let salt = take 8 (drop 8 raw);
            body = drop 16 raw;
            material = kdf_stream rt (utf8_encode rt secret) salt 3;
            key = take 32 material;
            iv = take 16 (drop 32 material)
        in if body = [] \<or> length body mod 16 \<noteq> 0 then None
           else case pkcs7_unpad (cbc_decrypt (aes256_decrypt_block rt key) iv body) of
                  None \<Rightarrow> None
                | Some plain \<Rightarrow> Some (utf8_decode rt plain))"

text \<open>A runtime to evaluate the definitions on concrete inputs.\<close>

definition stub_runtime :: runtime where
  "stub_runtime =
     \<lparr> to_number = (\<lambda>v. 0),
       base64_decode = ascii,
       utf8_encode = ascii,
       utf8_decode = map (\<lambda>b. char_of (unat b)),
       md5 = (\<lambda>bs. word_of_nat (length bs)),
       aes256_decrypt_block = (\<lambda>key block. block),
       date_getTime = map_of
         [(JStr ''2024-01-01T00:00:00Z'', 1704067200000),
          (JStr ''2024-01-02T00:00:00Z'', 1704153600000),
          (JStr ''2024-01-03T00:00:00Z'', 1704240000000)] \<rparr>"

section \<open>Retrieving collections\<close>



























subsection \<open>A paginating store to run the retrieval against\<close>












subsection \<open>Sorting by creation time\<close>








section \<open>Downloading media\<close>

text \<open>
  A download task and what the world does with it: \<open>remote\<close> is the outcome of
  \<^verbatim>\<open>fetch(url)\<close>, a rejection with its message or a response with its status and the outcome
  of \<^verbatim>\<open>arrayBuffer()\<close>; \<open>write_error\<close> is the error of \<^verbatim>\<open>fs.writeFile\<close> on a path, if any;
  \<open>basename\<close> is \<^verbatim>\<open>path.basename\<close>.
\<close>

record item =
  item_url :: string
  item_dest :: string

datatype fetch_outcome =
    FetchRejected string
  | FetchResponse nat "string + byte list"

record environment =
  remote :: "string \<Rightarrow> fetch_outcome"
  write_error :: "string \<Rightarrow> string option"
  basename :: "string \<Rightarrow> string"

text \<open>
  The inner \<^verbatim>\<open>try\<close> block of the worker: fetch, status test, body, write. \<open>Inl\<close> holds the
  message of the exception that the \<^verbatim>\<open>catch\<close> receives, \<open>Inr\<close> the bytes written.
\<close>

definition download :: "environment \<Rightarrow> item \<Rightarrow> string + byte list" where
  "download env it =
     (case remote env (item_url it) of
        FetchRejected msg \<Rightarrow> Inl msg
      | FetchResponse st body \<Rightarrow>
          if \<not> (200 \<le> st \<and> st \<le> 299) then Inl (''HTTP '' @ show_nat st)
          else case body of
                 Inl msg \<Rightarrow> Inl msg
               | Inr buffer \<Rightarrow>
                   (case write_error env (item_dest it) of
                      Some msg \<Rightarrow> Inl msg
                    | None \<Rightarrow> Inr buffer))"

text \<open>
  The workers are asynchronous functions on one thread: a worker runs without
  interruption from one \<^verbatim>\<open>await\<close> to the next, and a step of the model is such a piece of
  one worker. The loop test and \<^verbatim>\<open>pop()\<close> are one step, since no \<^verbatim>\<open>await\<close> separates them.
  When \<^verbatim>\<open>fs.access\<close> has answered, the worker counts the item or starts the fetch. The
  three \<^verbatim>\<open>await\<close>s of a download touch no shared variable, so they are one step: it ends
  with the file written and the item counted, or with the failure counted and logged.
  Other workers may run between the counting of an item and the next loop test, which
  is more than the script allows: every run of the script is a run of the model.

  \<^verbatim>\<open>fs.access\<close> succeeds when the destination exists. An item is an object, so
  \<^verbatim>\<open>if (!item) continue\<close> never applies. The progress line is left out. \<open>fetched\<close> is the
  list of the URLs given to \<^verbatim>\<open>fetch\<close>, \<open>warnings\<close> what \<^verbatim>\<open>console.warn\<close> printed. \<open>outcomes\<close>
  is not a variable of the script: it records each counted item with the counter that
  was incremented (\<open>True\<close> for \<^verbatim>\<open>completed\<close>).
\<close>

datatype phase = Ready | Accessing item | Downloading item | Finished

record pool =
  itemsToProcess :: "item list"
  completed :: nat
  failed :: nat
  workers :: "phase list"
  files :: "string \<rightharpoonup> byte list"
  fetched :: "string list"
  warnings :: "string list"
  outcomes :: "(item \<times> bool) list"

definition warning_line :: "environment \<Rightarrow> item \<Rightarrow> string \<Rightarrow> string" where
  "warning_line env it msg =
     [CHR 0x0A] @ ''  - Failed to download '' @ basename env (item_dest it) @ '': '' @ msg"

fun worker_step :: "environment \<Rightarrow> phase \<Rightarrow> pool \<Rightarrow> phase \<times> pool" where
  "worker_step env Ready s =
     (if length (itemsToProcess s) > 0
      then (Accessing (last (itemsToProcess s)),
            s\<lparr>itemsToProcess := butlast (itemsToProcess s)\<rparr>)
      else (Finished, s))"
| "worker_step env (Accessing it) s =
     (if item_dest it \<in> dom (files s)
      then (Ready, s\<lparr>completed := completed s + 1, outcomes := outcomes s @ [(it, True)]\<rparr>)
      else (Downloading it, s\<lparr>fetched := fetched s @ [item_url it]\<rparr>))"
| "worker_step env (Downloading it) s =
     (case download env it of
        Inl msg \<Rightarrow>
          (Ready, s\<lparr>failed := failed s + 1,
                    warnings := warnings s @ [warning_line env it msg],
                    outcomes := outcomes s @ [(it, False)]\<rparr>)
      | Inr buffer \<Rightarrow>
          (Ready, s\<lparr>files := (files s)(item_dest it \<mapsto> buffer),
                    completed := completed s + 1,
                    outcomes := outcomes s @ [(it, True)]\<rparr>))"
| "worker_step env Finished s = (Finished, s)"

text \<open>
  A schedule is the list of the workers in the order of their steps. \<open>start_pool\<close> is
  the state when \<open>n\<close> workers have been created; the script creates
  \<^verbatim>\<open>Math.min(CONFIG.DOWNLOAD_CONCURRENCY, items.length)\<close> of them, and none for an empty list.
\<close>

definition sched_step :: "environment \<Rightarrow> nat \<Rightarrow> pool \<Rightarrow> pool" where
  "sched_step env i s =
     (if i < length (workers s)
      then (case worker_step env (workers s ! i) s of
              (ph, s') \<Rightarrow> s'\<lparr>workers := (workers s')[i := ph]\<rparr>)
      else s)"

fun run :: "environment \<Rightarrow> nat list \<Rightarrow> pool \<Rightarrow> pool" where
  "run env [] s = s"
| "run env (i # sched) s = run env sched (sched_step env i s)"




















section \<open>Properties of the value decoder\<close>

lemma fields_entries_present: "fields_entries (JObj [(''fields'', JObj kvs)]) = kvs"
  by (simp add: fields_entries_def js_or_def)

lemma fields_entries_absent: "fields_entries (JObj []) = []"
  by (simp add: fields_entries_def js_or_def)

lemma values_array_present: "values_array (JObj [(''values'', JArr xs)]) = Some xs"
  by (simp add: js_or_def)

lemma values_array_absent: "values_array (JObj []) = Some []"
  by (simp add: js_or_def)

lemma obj_set_fresh:
  "k \<noteq> ''__proto__'' \<Longrightarrow> k \<notin> fst ` set out \<Longrightarrow> obj_set out k v = out @ [(k, v)]"
  by (induction out) (auto simp: obj_set_def)

lemma decode_entries_wire:
  assumes "\<And>k w. (k, w) \<in> set kvs \<Longrightarrow> decodeValue rt (wire_json w) uid = Inr (decoded rt uid w)"
    and "distinct (map fst kvs)" and "''__proto__'' \<notin> fst ` set kvs"
    and "fst ` set kvs \<inter> fst ` set out = {}"
  shows "decode_entries rt (map (\<lambda>(k, w). (k, wire_json w)) kvs) uid out
         = Inr (JObj (out @ map (\<lambda>(k, w). (k, decoded rt uid w)) kvs))"
  using assms
proof (induction kvs arbitrary: out)
  case Nil
  then show ?case by simp
next
  case (Cons p kvs)
  obtain k w where p: "p = (k, w)" by (cases p)
  have dv: "decodeValue rt (wire_json w) uid = Inr (decoded rt uid w)"
    using Cons.prems(1) [of k w] p by simp
  have fresh: "obj_set out k (decoded rt uid w) = out @ [(k, decoded rt uid w)]"
    using Cons.prems p by (intro obj_set_fresh) auto
  have "decode_entries rt (map (\<lambda>(k, w). (k, wire_json w)) kvs) uid (out @ [(k, decoded rt uid w)])
        = Inr (JObj ((out @ [(k, decoded rt uid w)]) @ map (\<lambda>(k, w). (k, decoded rt uid w)) kvs))"
    using Cons.prems p by (intro Cons.IH) auto
  then show ?case using p dv fresh by simp
qed

lemma decode_elems_wire:
  assumes "\<And>w. w \<in> set ws \<Longrightarrow> decodeValue rt (wire_json w) uid = Inr (decoded rt uid w)"
  shows "decode_elems rt (map wire_json ws) uid = Inr (map (decoded rt uid) ws)"
  using assms by (induction ws) auto

lemma known_kinds_unfold:
  "kind \<notin> set known_kinds \<longleftrightarrow>
     kind \<noteq> ''stringValue'' \<and> kind \<noteq> ''integerValue'' \<and> kind \<noteq> ''doubleValue'' \<and>
     kind \<noteq> ''booleanValue'' \<and> kind \<noteq> ''timestampValue'' \<and> kind \<noteq> ''nullValue'' \<and>
     kind \<noteq> ''mapValue'' \<and> kind \<noteq> ''arrayValue''"
  by (simp add: known_kinds_def)

lemma length_digest_bytes: "length (digest_bytes w) = 16"
  by (simp add: digest_bytes_def)

lemma length_kdf_digest: "length (kdf_digest rt secret salt (Suc i)) = 16"
  by (simp add: length_digest_bytes)

lemma length_kdf_stream: "length (kdf_stream rt secret salt n) = 16 * n"
proof (induction n)
  case 0
  show ?case by (simp add: kdf_stream_def)
next
  case (Suc n)
  have "kdf_stream rt secret salt (Suc n)
        = kdf_stream rt secret salt n @ kdf_digest rt secret salt (Suc n)"
    by (simp add: kdf_stream_def)
  then show ?case using Suc by (simp add: length_digest_bytes)
qed

lemma evp_loop_step:
  "length derived < 48 \<Longrightarrow>
   evp_loop rt p s derived digest =
   evp_loop rt p s (derived @ digest_bytes (md5 rt (digest @ p @ s)))
     (digest_bytes (md5 rt (digest @ p @ s)))"
  by (subst evp_loop.simps) (simp add: Let_def)

lemma evp_loop_done: "48 \<le> length derived \<Longrightarrow> evp_loop rt p s derived digest = derived"
  by (subst evp_loop.simps) simp

lemma kdf_stream_Suc:
  "kdf_stream rt secret salt (Suc n) =
   kdf_stream rt secret salt n
     @ digest_bytes (md5 rt (kdf_digest rt secret salt n @ secret @ salt))"
  by (simp add: kdf_stream_def)

lemma evp_loop_kdf_step:
  "n < 3 \<Longrightarrow>
   evp_loop rt secret salt (kdf_stream rt secret salt n) (kdf_digest rt secret salt n) =
   evp_loop rt secret salt (kdf_stream rt secret salt (Suc n)) (kdf_digest rt secret salt (Suc n))"
  by (subst evp_loop_step) (simp_all add: length_kdf_stream kdf_stream_Suc)

lemma evp_loop_kdf:
  "evp_loop rt secret salt [] [] = kdf_stream rt secret salt 3"
proof -
  have "evp_loop rt secret salt [] [] =
        evp_loop rt secret salt (kdf_stream rt secret salt 0) (kdf_digest rt secret salt 0)"
    by (simp add: kdf_stream_def)
  also have "\<dots> = evp_loop rt secret salt (kdf_stream rt secret salt 1) (kdf_digest rt secret salt 1)"
    using evp_loop_kdf_step [of 0] by simp
  also have "\<dots> = evp_loop rt secret salt (kdf_stream rt secret salt 2) (kdf_digest rt secret salt 2)"
    using evp_loop_kdf_step [of 1] by (simp add: numeral_2_eq_2)
  also have "\<dots> = evp_loop rt secret salt (kdf_stream rt secret salt 3) (kdf_digest rt secret salt 3)"
    using evp_loop_kdf_step [of 2] by (simp add: numeral_3_eq_3 numeral_2_eq_2)
  also have "\<dots> = kdf_stream rt secret salt 3"
    by (rule evp_loop_done) (simp add: length_kdf_stream)
  finally show ?thesis .
qed

lemma evpBytesToKey_kdf:
  "evpBytesToKey rt secret salt =
     (take 32 (kdf_stream rt secret salt 3), take 16 (drop 32 (kdf_stream rt secret salt 3)))"
  by (simp add: evpBytesToKey_def evp_loop_kdf Let_def)

lemma decipher_kdf:
  "decipher_aes_256_cbc rt (take 32 (kdf_stream rt secret salt 3))
       (take 16 (drop 32 (kdf_stream rt secret salt 3))) body =
   (if body = [] \<or> length body mod 16 \<noteq> 0 then Inl (Error ''wrong final block length'')
    else case pkcs7_unpad (cbc_decrypt (aes256_decrypt_block rt (take 32 (kdf_stream rt secret salt 3)))
                 (take 16 (drop 32 (kdf_stream rt secret salt 3))) body) of
           None \<Rightarrow> Inl (Error ''bad decrypt'')
         | Some plain \<Rightarrow> Inr plain)"
  by (simp add: decipher_aes_256_cbc_def length_kdf_stream)

lemma unat_of_char_byte: "unat (of_char c :: byte) = of_char c"
proof -
  have "(of_char c :: byte) = of_nat (of_char c)" by (simp add: of_nat_of_char)
  then have "unat (of_char c :: byte) = (of_char c :: nat) mod 256"
    by (simp only: unat_of_nat) simp
  then show ?thesis by simp
qed

lemma byte_char_1: "char_of (unat (of_char c :: byte)) = c"
  by (simp add: unat_of_char_byte)

lemma byte_char_2: "(of_char (char_of (unat (b::byte))) :: byte) = b"
proof -
  have lt: "unat b < 256" using unsigned_less [of b, where ?'a = nat] by simp
  have "(of_char (char_of (unat b)) :: byte) = of_nat (of_char (char_of (unat b)))"
    by (simp only: of_nat_of_char)
  also have "\<dots> = of_nat (unat b mod 256)" by (simp only: of_char_of)
  also have "\<dots> = of_nat (unat b)" using lt by simp
  also have "\<dots> = b" by simp
  finally show ?thesis .
qed

lemma byte_char_iff: "(char_of (unat (b::byte)) = c) = (b = of_char c)"
  using byte_char_1 byte_char_2 by metis

lemma stub_marker:
  "\<forall>bs. length bs = 8 \<longrightarrow> (utf8_decode stub_runtime bs = ''Salted__'') = (bs = ascii ''Salted__'')"
proof -
  have "\<And>bs cs. (map (\<lambda>b::byte. char_of (unat b)) bs = cs) = (bs = map of_char cs)"
  proof -
    fix bs :: "byte list" and cs :: string
    show "(map (\<lambda>b::byte. char_of (unat b)) bs = cs) = (bs = map of_char cs)"
    proof (induction bs arbitrary: cs)
      case Nil
      show ?case by auto
    next
      case (Cons b bs)
      show ?case by (cases cs) (auto simp: Cons byte_char_iff)
    qed
  qed
  then show ?thesis by (simp add: stub_runtime_def ascii_def del: of_char_Char)
qed


text \<open>
  C10. Applied to \<^verbatim>\<open>null\<close>, \<^verbatim>\<open>undefined\<close> or anything that is not an object (a boolean, a
  number, a string), \<^verbatim>\<open>decodeValue\<close> returns its argument itself, unchanged, and does not
  throw.
\<close>

theorem decodeValue_non_object:
  "is_nullish v \<or> typeof v \<noteq> ''object'' \<Longrightarrow> decodeValue rt v uid = Inr v"
  by (simp add: decodeValue.simps)

theorem decodeValue_non_object_witness:
  "(is_nullish (JStr ''plain'') \<or> typeof (JStr ''plain'') \<noteq> ''object'')
   \<and> decodeValue stub_runtime (JStr ''plain'') ''uid1'' = Inr (JStr ''plain'')"
  using decodeValue_non_object [of "JStr ''plain''" stub_runtime "''uid1''"] by simp

lemma decodeValue_map_of_null:
  "\<exists>e. decodeValue rt (JObj [(''mapValue'', JNull)]) uid = Inl e"
  by (simp add: decodeValue.simps is_nullish_def)

lemma decode_entries_returns:
  assumes "\<And>k v. (k, v) \<in> set es \<Longrightarrow> \<exists>r. decodeValue rt v uid = Inr r"
  shows "\<exists>r. decode_entries rt es uid out = Inr r"
  using assms
proof (induction es arbitrary: out)
  case Nil
  show ?case by simp
next
  case (Cons p es)
  obtain k v where p: "p = (k, v)" by (cases p)
  obtain d where d: "decodeValue rt v uid = Inr d" using Cons.prems [of k v] p by auto
  have "\<exists>r. decode_entries rt es uid (obj_set out k d) = Inr r"
    using Cons.prems by (intro Cons.IH) auto
  then show ?case using p d by simp
qed

lemma decode_elems_returns:
  assumes "\<And>v. v \<in> set vs \<Longrightarrow> \<exists>r. decodeValue rt v uid = Inr r"
  shows "\<exists>r. decode_elems rt vs uid = Inr r"
  using assms
proof (induction vs)
  case Nil
  show ?case by simp
next
  case (Cons v vs)
  obtain d where d: "decodeValue rt v uid = Inr d" using Cons.prems [of v] by auto
  obtain ds where "decode_elems rt vs uid = Inr ds" using Cons by auto
  then show ?case using d by simp
qed

lemma decodeValue_returns:
  "opaque_ok w \<Longrightarrow> \<exists>r. decodeValue rt (wire_json w) uid = Inr r"
proof (induction w)
  case (WString s)
  show ?case by (simp add: decodeValue.simps is_nullish_def split: option.splits)
next
  case (WMap kvs)
  have "\<And>k v. (k, v) \<in> set (map (\<lambda>(k, w). (k, wire_json w)) kvs)
          \<Longrightarrow> \<exists>r. decodeValue rt v uid = Inr r"
  proof -
    fix k v assume "(k, v) \<in> set (map (\<lambda>(k, w). (k, wire_json w)) kvs)"
    then obtain w where m: "(k, w) \<in> set kvs" and v: "v = wire_json w" by auto
    have "opaque_ok w" using WMap.prems m by (auto simp: list_all_iff)
    moreover have "w \<in> Basic_BNFs.snds (k, w)" by simp
    ultimately show "\<exists>r. decodeValue rt v uid = Inr r" using WMap.IH m v by blast
  qed
  then have "\<exists>r. decode_entries rt (map (\<lambda>(k, w). (k, wire_json w)) kvs) uid [] = Inr r"
    by (rule decode_entries_returns)
  then show ?case
    by (simp add: decodeValue.simps is_nullish_def fields_entries_present fields_entries_absent)
next
  case (WArray ws)
  have "\<And>v. v \<in> set (map wire_json ws) \<Longrightarrow> \<exists>r. decodeValue rt v uid = Inr r"
    using WArray by (auto simp: list_all_iff)
  then have "\<exists>r. decode_elems rt (map wire_json ws) uid = Inr r"
    by (rule decode_elems_returns)
  then show ?case
    by (auto simp: decodeValue.simps is_nullish_def js_or_def)
next
  case (WOpaque kind payload)
  then show ?case by (simp add: decodeValue.simps is_nullish_def known_kinds_unfold)
qed (simp_all add: decodeValue.simps is_nullish_def)

lemma decodeValue_decoded:
  "wire_ok w \<Longrightarrow> decodeValue rt (wire_json w) uid = Inr (decoded rt uid w)"
proof (induction w)
  case WNull
  show ?case by (simp add: decodeValue.simps is_nullish_def)
next
  case (WBoolean b)
  show ?case by (simp add: decodeValue.simps is_nullish_def)
next
  case (WInteger i)
  show ?case by (simp add: decodeValue.simps is_nullish_def)
next
  case (WDouble d)
  show ?case by (simp add: decodeValue.simps is_nullish_def)
next
  case (WTimestamp t)
  show ?case by (simp add: decodeValue.simps is_nullish_def)
next
  case (WString s)
  show ?case by (simp add: decodeValue.simps is_nullish_def split: option.splits)
next
  case (WMap kvs)
  have ih: "\<And>k w. (k, w) \<in> set kvs \<Longrightarrow> decodeValue rt (wire_json w) uid = Inr (decoded rt uid w)"
  proof -
    fix k w assume m: "(k, w) \<in> set kvs"
    then have "wire_ok w" using WMap.prems by (auto simp: list_all_iff)
    moreover have "w \<in> Basic_BNFs.snds (k, w)" by simp
    ultimately show "decodeValue rt (wire_json w) uid = Inr (decoded rt uid w)"
      using WMap.IH m by blast
  qed
  have "decode_entries rt (map (\<lambda>(k, w). (k, wire_json w)) kvs) uid []
        = Inr (JObj ([] @ map (\<lambda>(k, w). (k, decoded rt uid w)) kvs))"
    using ih WMap.prems by (intro decode_entries_wire) auto
  then show ?case
    by (simp add: decodeValue.simps is_nullish_def fields_entries_present fields_entries_absent)
next
  case (WArray ws)
  have "decode_elems rt (map wire_json ws) uid = Inr (map (decoded rt uid) ws)"
    using WArray by (intro decode_elems_wire) (auto simp: list_all_iff)
  then show ?case
    by (simp add: decodeValue.simps is_nullish_def js_or_def)
next
  case (WOpaque kind payload)
  then show ?case by (simp add: decodeValue.simps is_nullish_def known_kinds_unfold)
qed

text \<open>
  C3. \<^verbatim>\<open>decodeValue\<close> is total on wire values: for a representable value of any kind
  (null, boolean, integer, double, timestamp, string, map, array, or a kind it does not
  interpret) it returns a value and does not throw. For a well-formed one the value is
  the one the specification gives for that kind, and a value of an uninterpreted kind
  comes back unchanged.
\<close>

theorem decodeValue_total:
  "opaque_ok w \<Longrightarrow>
     (\<exists>r. decodeValue rt (wire_json w) uid = Inr r)
     \<and> (wire_ok w \<longrightarrow> decodeValue rt (wire_json w) uid = Inr (decoded rt uid w))"
  using decodeValue_returns decodeValue_decoded by blast

theorem decodeValue_total_witness:
  "opaque_ok (WMap [(''name'', WString ''Ada''), (''age'', WInteger 37),
                  (''tags'', WArray [WNull, WBoolean True, WTimestamp ''2024-01-01T00:00:00Z'']),
                  (''owner'', WOpaque ''referenceValue'' (JStr ''projects/p/databases/d''))])
   \<and> wire_ok (WMap [(''name'', WString ''Ada''), (''age'', WInteger 37),
                  (''tags'', WArray [WNull, WBoolean True, WTimestamp ''2024-01-01T00:00:00Z'']),
                  (''owner'', WOpaque ''referenceValue'' (JStr ''projects/p/databases/d''))])
   \<and> decodeValue stub_runtime
        (wire_json (WMap [(''name'', WString ''Ada''), (''age'', WInteger 37),
                  (''tags'', WArray [WNull, WBoolean True, WTimestamp ''2024-01-01T00:00:00Z'']),
                  (''owner'', WOpaque ''referenceValue'' (JStr ''projects/p/databases/d''))]))
        ''uid1''
      = Inr (JObj [(''name'', JStr ''Ada''), (''age'', JNum 0),
                   (''tags'', JArr [JNull, JBool True, JStr ''2024-01-01T00:00:00Z'']),
                   (''owner'', JObj [(''referenceValue'', JStr ''projects/p/databases/d'')])])"
  using decodeValue_total
    [of "WMap [(''name'', WString ''Ada''), (''age'', WInteger 37),
               (''tags'', WArray [WNull, WBoolean True, WTimestamp ''2024-01-01T00:00:00Z'']),
               (''owner'', WOpaque ''referenceValue'' (JStr ''projects/p/databases/d''))]"
        stub_runtime "''uid1''"]
  by (simp add: known_kinds_def starts_with_def stub_runtime_def)

text \<open>
  C2. For a string value whose text starts with \<^verbatim>\<open>!enc:\<close> and for any secret, when
  decryption of the remainder fails (\<^verbatim>\<open>decryptEncString\<close> yields \<^verbatim>\<open>null\<close>, whatever the
  reason), \<^verbatim>\<open>decodeValue\<close> returns the original text with its prefix: not an error and not
  \<^verbatim>\<open>null\<close>. The loops that decode the enclosing map or array go on with the next entry.
\<close>

theorem decrypt_failure_fallback:
  assumes "starts_with s ''!enc:''"
    and "decryptEncString rt (drop 5 s) uid = None"
  shows "decodeValue rt (JObj [(''stringValue'', JStr s)]) uid = Inr (JStr s)
         \<and> decode_entries rt ((k, JObj [(''stringValue'', JStr s)]) # es) uid out
             = decode_entries rt es uid (obj_set out k (JStr s))
         \<and> decode_elems rt (JObj [(''stringValue'', JStr s)] # vs) uid
             = map_sum id ((#) (JStr s)) (decode_elems rt vs uid)"
proof -
  have "decodeValue rt (JObj [(''stringValue'', JStr s)]) uid = Inr (JStr s)"
    using assms by (simp add: decodeValue.simps is_nullish_def)
  then show ?thesis by simp
qed

theorem decrypt_failure_fallback_witness:
  "starts_with ''!enc:Salted__12345678hello world!!!!!'' ''!enc:''
   \<and> decryptEncString stub_runtime (drop 5 ''!enc:Salted__12345678hello world!!!!!'') ''uid1'' = None
   \<and> decodeValue stub_runtime (JObj [(''stringValue'', JStr ''!enc:Salted__12345678hello world!!!!!'')]) ''uid1''
       = Inr (JStr ''!enc:Salted__12345678hello world!!!!!'')"
proof -
  have h1: "starts_with ''!enc:Salted__12345678hello world!!!!!'' ''!enc:''"
    by (simp add: starts_with_def)
  have h2: "decryptEncString stub_runtime (drop 5 ''!enc:Salted__12345678hello world!!!!!'') ''uid1'' = None"
    by code_simp
  show ?thesis
    using decrypt_failure_fallback [OF h1 h2] h1 h2 by blast
qed

text \<open>
  C5. \<^verbatim>\<open>decryptEncString\<close> is the reference algorithm: \<^verbatim>\<open>null\<close> when the decoded bytes are
  fewer than 16 or do not begin with the 8 ASCII bytes \<^verbatim>\<open>Salted__\<close>; otherwise bytes 8 to
  16 are the salt and the rest is the body, the key is the first 32 and the IV the next
  16 bytes of the MD5 digest chain, three digests being the first count that reaches 48
  bytes, and the body is decrypted with AES-256-CBC and PKCS#7 padding removal, any
  failure there giving \<^verbatim>\<open>null\<close>. The script compares the decoded text of the first 8 bytes
  with the marker; the hypothesis says that only the marker's bytes decode to it, as is
  the case for UTF-8.
\<close>

theorem decryptEncString_reference:
  assumes "\<forall>bs. length bs = 8 \<longrightarrow> (utf8_decode rt bs = ''Salted__'') = (bs = ascii ''Salted__'')"
  shows "decryptEncString rt b64 secret = reference_decrypt rt b64 secret
         \<and> evpBytesToKey rt pw' salt' =
             (take 32 (kdf_stream rt pw' salt' 3), take 16 (drop 32 (kdf_stream rt pw' salt' 3)))
         \<and> length (kdf_stream rt pw' salt' 2) < 48
         \<and> 48 \<le> length (kdf_stream rt pw' salt' 3)"
proof -
  define raw where "raw = base64_decode rt b64"
  define marker where "marker = ascii ''Salted__''"
  define mtext where "mtext = ''Salted__''"
  define pw where "pw = utf8_encode rt secret"
  define salt where "salt = take 8 (drop 8 raw)"
  define key where "key = take 32 (kdf_stream rt pw salt 3)"
  define iv where "iv = take 16 (drop 32 (kdf_stream rt pw salt 3))"
  have lhs: "decryptEncString rt b64 secret =
      (if length raw < 16 \<or> utf8_decode rt (take 8 raw) \<noteq> mtext then None
       else case decipher_aes_256_cbc rt key iv (drop 16 raw) of
              Inl e \<Rightarrow> None
            | Inr decrypted \<Rightarrow> Some (utf8_decode rt decrypted))"
    unfolding decryptEncString_def Let_def evpBytesToKey_kdf raw_def mtext_def key_def iv_def
      salt_def pw_def
    by (simp only: case_prod_conv)
  have rhs: "reference_decrypt rt b64 secret =
      (if length raw < 16 \<or> take 8 raw \<noteq> marker then None
       else if drop 16 raw = [] \<or> length (drop 16 raw) mod 16 \<noteq> 0 then None
       else case pkcs7_unpad (cbc_decrypt (aes256_decrypt_block rt key) iv (drop 16 raw)) of
              None \<Rightarrow> None
            | Some plain \<Rightarrow> Some (utf8_decode rt plain))"
    unfolding reference_decrypt_def Let_def raw_def marker_def key_def iv_def salt_def pw_def
    by (rule refl)
  have dec: "decipher_aes_256_cbc rt key iv (drop 16 raw) =
      (if drop 16 raw = [] \<or> length (drop 16 raw) mod 16 \<noteq> 0
       then Inl (Error ''wrong final block length'')
       else case pkcs7_unpad (cbc_decrypt (aes256_decrypt_block rt key) iv (drop 16 raw)) of
              None \<Rightarrow> Inl (Error ''bad decrypt'')
            | Some plain \<Rightarrow> Inr plain)"
    unfolding key_def iv_def by (rule decipher_kdf)
  have "decryptEncString rt b64 secret = reference_decrypt rt b64 secret"
  proof (cases "length raw < 16")
    case True
    then show ?thesis unfolding lhs rhs by (simp only: simp_thms if_True)
  next
    case False
    then have "length (take 8 raw) = 8" by simp
    then have m: "(utf8_decode rt (take 8 raw) = mtext) = (take 8 raw = marker)"
      using assms unfolding mtext_def marker_def by blast
    show ?thesis
      unfolding lhs rhs dec m
      by (simp only: split: if_splits option.splits sum.splits) simp
  qed
then show ?thesis by (simp add: evpBytesToKey_kdf length_kdf_stream)
qed

theorem decryptEncString_reference_witness:
  "decryptEncString stub_runtime (''Salted__12345678hello world!!!!'' @ [CHR 0x1D]) ''uid1''
     = reference_decrypt stub_runtime (''Salted__12345678hello world!!!!'' @ [CHR 0x1D]) ''uid1''
   \<and> decryptEncString stub_runtime (''Salted__12345678hello world!!!!'' @ [CHR 0x1D]) ''uid1''
     = Some ''hello world!!!!''"
proof -
  have r: "reference_decrypt stub_runtime (''Salted__12345678hello world!!!!'' @ [CHR 0x1D]) ''uid1''
           = Some ''hello world!!!!''"
    by code_simp
  show ?thesis
    using decryptEncString_reference [OF stub_marker,
        of "''Salted__12345678hello world!!!!'' @ [CHR 0x1D]" "''uid1''"] r
    by simp
qed

section \<open>Properties of the retrieval\<close>























lemma set_insort_key': "set (insort_key key x ys) = insert x (set ys)"
  by (induction ys) auto










section \<open>Properties of the download scheduler\<close>



















lemma run_append: "run env (a @ b) s = run env b (run env a s)"
  by (induction a arbitrary: s) simp_all



lemma no_workers_step: "workers s = [] \<Longrightarrow> sched_step env i s = s"
  by (simp add: sched_step_def)

lemma no_workers_run: "workers s = [] \<Longrightarrow> run env sched s = s"
  by (induction sched) (simp_all add: no_workers_step)


























end
